theory Spec2Isabelle
  imports Complex_Main "HOL-Library.AList"
begin

section \<open>The icat kitten: placement, chunked transfer, capability detection\<close>

text \<open>
  A shallow embedding of \<^verbatim>\<open>kittens/icat/main.py\<close>. Python's unbounded integers are
  \<open>int\<close>, \<open>bytes\<close> and \<open>str\<close> values are lists of 8-bit characters, a raised exception
  is the left injection of a sum, and what a function writes to the standard output is
  returned next to its result.
\<close>

subsection \<open>Python values\<close>

datatype py_error =
  ZeroDivisionError | OverflowError | KeyError | ValueError | TypeError | SystemExit
  | OpenFailed | NoImageMagick | ConvertFailed

type_synonym bytes = "char list"

text \<open>
  \<^verbatim>\<open>a / b\<close> on integers is true division. Pixel and cell counts come from a 16-bit
  ioctl field and image sizes from an image header, far inside the range in which the
  floating-point quotient, truncated by \<^verbatim>\<open>int()\<close> or rounded up by \<^verbatim>\<open>ceil()\<close>, agrees with
  the exact quotient; the quotient is therefore a \<open>real\<close>.
\<close>

definition py_truediv :: "int \<Rightarrow> int \<Rightarrow> py_error + real" where
  "py_truediv a b = (if b = 0 then Inl ZeroDivisionError else Inr (of_int a / of_int b))"

text \<open>\<^verbatim>\<open>int(x)\<close> on a float truncates towards zero.\<close>

definition py_int_of_float :: "real \<Rightarrow> int" where
  "py_int_of_float x = (if 0 \<le> x then \<lfloor>x\<rfloor> else \<lceil>x\<rceil>)"

text \<open>\<^verbatim>\<open>'{}'.format(n)\<close> for an integer: decimal digits, a minus sign when negative.\<close>

fun str_nat :: "nat \<Rightarrow> string" where
  "str_nat n =
     (if n < 10 then [''0123456789'' ! n]
      else str_nat (n div 10) @ [''0123456789'' ! (n mod 10)])"

declare str_nat.simps [simp del]

definition str_int :: "int \<Rightarrow> string" where
  "str_int i = (if i < 0 then CHR ''-'' # str_nat (nat (- i)) else str_nat (nat i))"

subsection \<open>Commands\<close>

text \<open>
  A graphics command is a Python \<^verbatim>\<open>dict\<close> from one-letter keys to integers or strings.
  The association list keeps the insertion order of the dictionary: assigning to a key
  that is present replaces its value in place, a new key goes to the end.
\<close>

datatype gr_val = VInt int | VStr string

type_synonym command = "(string \<times> gr_val) list"

definition cmd_set :: "string \<Rightarrow> gr_val \<Rightarrow> command \<Rightarrow> command" where
  "cmd_set k v cmd = AList.update k v cmd"

definition cmd_get :: "command \<Rightarrow> string \<Rightarrow> py_error + gr_val" where
  "cmd_get cmd k = (case map_of cmd k of None \<Rightarrow> Inl KeyError | Some v \<Rightarrow> Inr v)"

subsection \<open>Placement\<close>

record screen =
  ss_width :: int
  ss_height :: int
  ss_cols :: int
  ss_rows :: int

record Place =
  width :: int
  height :: int
  left :: int
  top :: int

definition calculate_in_cell_x_offset :: "int \<Rightarrow> int \<Rightarrow> string \<Rightarrow> py_error + int" where
  "calculate_in_cell_x_offset w cell_width align =
     (if align = ''left'' then Inr 0
      else if cell_width = 0 then Inl ZeroDivisionError
      else
        let extra_pixels = w mod cell_width in
        if extra_pixels = 0 then Inr 0
        else if align = ''right'' then Inr (cell_width - extra_pixels)
        else Inr ((cell_width - extra_pixels) div 2))"

text \<open>
  The first lines shared by \<^verbatim>\<open>set_cursor\<close> and \<^verbatim>\<open>set_cursor_for_place\<close>:
  \<^verbatim>\<open>cw = int(ss.width / ss.cols)\<close> and \<^verbatim>\<open>num_of_cells_needed = int(ceil(width / cw))\<close>.
\<close>

definition cell_width :: "screen \<Rightarrow> py_error + int" where
  "cell_width ss =
     (case py_truediv (ss_width ss) (ss_cols ss) of
        Inl e \<Rightarrow> Inl e
      | Inr q \<Rightarrow> Inr (py_int_of_float q))"

definition num_of_cells_needed :: "int \<Rightarrow> int \<Rightarrow> py_error + int" where
  "num_of_cells_needed w cw =
     (case py_truediv w cw of
        Inl e \<Rightarrow> Inl e
      | Inr q \<Rightarrow> Inr \<lceil>q\<rceil>)"

text \<open>
  \<^verbatim>\<open>extra_cells\<close> of \<^verbatim>\<open>set_cursor_for_place\<close>: zero unless the alignment is
  \<^verbatim>\<open>'center'\<close> or \<^verbatim>\<open>'right'\<close>.
\<close>

definition place_extra_cells :: "Place \<Rightarrow> int \<Rightarrow> string \<Rightarrow> int" where
  "place_extra_cells place n align =
     (if align = ''center'' then (width place - n) div 2
      else if align = ''right'' then width place - n
      else 0)"

text \<open>The cursor-position sequence \<^verbatim>\<open>'\033[{};{}H'.format(row, col)\<close>.\<close>

definition cursor_position :: "int \<Rightarrow> int \<Rightarrow> bytes" where
  "cursor_position row col = CHR 0x1B # ''['' @ str_int row @ '';'' @ str_int col @ ''H''"

text \<open>
  \<^verbatim>\<open>set_cursor_for_place\<close> returns the command with its \<^verbatim>\<open>X\<close> key set and the bytes
  written to the standard output.
\<close>

definition set_cursor_for_place ::
  "screen \<Rightarrow> Place \<Rightarrow> command \<Rightarrow> int \<Rightarrow> int \<Rightarrow> string \<Rightarrow> py_error + (command \<times> bytes)" where
  "set_cursor_for_place ss place cmd w h align =
     (let x = left place + 1 in
      case cell_width ss of
        Inl e \<Rightarrow> Inl e
      | Inr cw \<Rightarrow>
          (case num_of_cells_needed w cw of
             Inl e \<Rightarrow> Inl e
           | Inr n \<Rightarrow>
               (case calculate_in_cell_x_offset w cw align of
                  Inl e \<Rightarrow> Inl e
                | Inr off \<Rightarrow>
                    let cmd = cmd_set ''X'' (VInt off) cmd;
                        extra_cells = place_extra_cells place n align
                    in Inr (cmd, cursor_position (top place + 1) (x + extra_cells)))))"

subsection \<open>The transfer orchestrator\<close>

text \<open>
  What \<^verbatim>\<open>identify\<close> returns for an image, and the options \<^verbatim>\<open>process\<close> reads from
  the parsed command line.
\<close>

record metadata =
  m_width :: int
  m_height :: int
  m_mode :: string
  m_fmt :: string

record args =
  args_place :: "Place option"
  args_scale_up :: bool
  args_align :: string

text \<open>
  The sides of the target box are Python numbers: without a Place the integers
  \<^verbatim>\<open>ss.width\<close> and \<^verbatim>\<open>10 * m.height\<close>, with one the floats
  \<^verbatim>\<open>args.place.width * (ss.width / ss.cols)\<close> and
  \<^verbatim>\<open>args.place.height * (ss.height / ss.rows)\<close>. These floats go to \<^verbatim>\<open>convert\<close> as they
  are, so their rounding matters (\<^verbatim>\<open>25 * (816 / 80)\<close> is \<^verbatim>\<open>254.99999999999997\<close>, not 255).
  Float arithmetic rounds, overflows to infinity and refuses integers beyond its range;
  it belongs to the interpreter and is a parameter here: a float is a value of a type
  \<open>'f\<close>, and \<open>float_ops\<close> holds the three operations \<^verbatim>\<open>process\<close> applies: the true
  division of two integers with a divisor other than zero, the product of an integer
  and a float, and the comparison \<^verbatim>\<open>i > x\<close> of an integer with a float.
\<close>

datatype 'f py_num = PInt int | PFloat 'f

record 'f float_ops =
  int_truediv :: "int \<Rightarrow> int \<Rightarrow> py_error + 'f"
  int_mul_float :: "int \<Rightarrow> 'f \<Rightarrow> py_error + 'f"
  int_gt_float :: "int \<Rightarrow> 'f \<Rightarrow> bool"

text \<open>\<^verbatim>\<open>i > v\<close> for an integer \<open>i\<close> and a number \<open>v\<close>.\<close>

definition py_gt :: "'f float_ops \<Rightarrow> int \<Rightarrow> 'f py_num \<Rightarrow> bool" where
  "py_gt fo i v = (case v of PInt j \<Rightarrow> i > j | PFloat x \<Rightarrow> int_gt_float fo i x)"

text \<open>\<^verbatim>\<open>cells * (pixels / count)\<close>: the division raises when \<open>count\<close> is zero.\<close>

definition cells_to_pixels :: "'f float_ops \<Rightarrow> int \<Rightarrow> int \<Rightarrow> int \<Rightarrow> py_error + 'f py_num" where
  "cells_to_pixels fo cells pixels count =
     (if count = 0 then Inl ZeroDivisionError
      else
        case int_truediv fo pixels count of
          Inl e \<Rightarrow> Inl e
        | Inr q \<Rightarrow>
            (case int_mul_float fo cells q of
               Inl e \<Rightarrow> Inl e
             | Inr x \<Rightarrow> Inr (PFloat x)))"

text \<open>
  The target box of \<^verbatim>\<open>process\<close>. A \<^verbatim>\<open>Place\<close> is a four-element tuple and so always
  true in \<^verbatim>\<open>if args.place\<close>; without one the box is the screen's pixel width by
  \<^verbatim>\<open>10 * m.height\<close>, ten times the height of the image itself.
\<close>

definition available_width :: "'f float_ops \<Rightarrow> screen \<Rightarrow> args \<Rightarrow> py_error + 'f py_num" where
  "available_width fo ss a =
     (case args_place a of
        Some place \<Rightarrow> cells_to_pixels fo (width place) (ss_width ss) (ss_cols ss)
      | None \<Rightarrow> Inr (PInt (ss_width ss)))"

definition available_height ::
  "'f float_ops \<Rightarrow> screen \<Rightarrow> args \<Rightarrow> metadata \<Rightarrow> py_error + 'f py_num" where
  "available_height fo ss a m =
     (case args_place a of
        Some place \<Rightarrow> cells_to_pixels fo (height place) (ss_height ss) (ss_rows ss)
      | None \<Rightarrow> Inr (PInt (10 * m_height m)))"

definition needs_scaling :: "'f float_ops \<Rightarrow> screen \<Rightarrow> args \<Rightarrow> metadata \<Rightarrow> py_error + bool" where
  "needs_scaling fo ss a m =
     (case available_width fo ss a of
        Inl e \<Rightarrow> Inl e
      | Inr aw \<Rightarrow>
          (case available_height fo ss a m of
             Inl e \<Rightarrow> Inl e
           | Inr ah \<Rightarrow>
               let needs_scaling = py_gt fo (m_width m) aw \<or> py_gt fo (m_height m) ah
               in Inr (needs_scaling \<or> args_scale_up a)))"

text \<open>
  Arithmetic without rounding on the reals, an instance of the parameter with which the
  branches that do no float arithmetic are evaluated.
\<close>

definition unrounded :: "real float_ops" where
  "unrounded =
     \<lparr>int_truediv = (\<lambda>a b. Inr (of_int a / of_int b)),
      int_mul_float = (\<lambda>i x. Inr (of_int i * x)),
      int_gt_float = (\<lambda>i x. of_int i > x)\<rparr>"

text \<open>
  \<^verbatim>\<open>process\<close> up to its call of \<^verbatim>\<open>show\<close>: the arguments it passes on. The
  collaborators \<^verbatim>\<open>identify\<close> and \<^verbatim>\<open>convert\<close> live outside this file and are
  parameters.
\<close>

record show_args =
  sa_outfile :: string
  sa_width :: int
  sa_height :: int
  sa_fmt :: int
  sa_transmit_mode :: string

definition process_plan ::
  "'f float_ops \<Rightarrow>
   (string \<Rightarrow> py_error + metadata) \<Rightarrow>
   (string \<Rightarrow> metadata \<Rightarrow> 'f py_num \<Rightarrow> 'f py_num \<Rightarrow> bool \<Rightarrow>
      py_error + (string \<times> int \<times> int)) \<Rightarrow>
   screen \<Rightarrow> string \<Rightarrow> args \<Rightarrow> bool \<Rightarrow> py_error + show_args" where
  "process_plan fo identify convert ss path a is_tempfile =
     (case identify path of
        Inl e \<Rightarrow> Inl e
      | Inr m \<Rightarrow>
          (case available_width fo ss a of
             Inl e \<Rightarrow> Inl e
           | Inr aw \<Rightarrow>
               (case available_height fo ss a m of
                  Inl e \<Rightarrow> Inl e
                | Inr ah \<Rightarrow>
                    (case needs_scaling fo ss a m of
                       Inl e \<Rightarrow> Inl e
                     | Inr scaling \<Rightarrow>
                         if m_fmt m = ''png'' \<and> \<not> scaling then
                           Inr \<lparr>sa_outfile = path, sa_width = m_width m, sa_height = m_height m,
                                sa_fmt = 100,
                                sa_transmit_mode = (if is_tempfile then ''t'' else ''f'')\<rparr>
                         else
                           (case convert path m aw ah (args_scale_up a) of
                              Inl e \<Rightarrow> Inl e
                            | Inr (outfile, w, h) \<Rightarrow>
                                Inr \<lparr>sa_outfile = outfile, sa_width = w, sa_height = h,
                                     sa_fmt = (if m_mode m = ''rgb'' then 24 else 32),
                                     sa_transmit_mode = ''t''\<rparr>)))))"

text \<open>
  The scaling decision as the specification words it: the box is the terminal's pixel
  width by ten screen pixel heights.
\<close>

definition spec_needs_scaling :: "screen \<Rightarrow> args \<Rightarrow> metadata \<Rightarrow> bool" where
  "spec_needs_scaling ss a m =
     (m_width m > ss_width ss \<or> m_height m > 10 * ss_height ss \<or> args_scale_up a)"

text \<open>
  The in-cell offset as the specification words it: the remainder for right alignment,
  half the remainder for center alignment.
\<close>

definition spec_in_cell_x_offset :: "int \<Rightarrow> int \<Rightarrow> string \<Rightarrow> int" where
  "spec_in_cell_x_offset w c align =
     (if align = ''left'' \<or> w mod c = 0 then 0
      else if align = ''right'' then w mod c
      else (w mod c) div 2)"

subsection \<open>Base 64\<close>

text \<open>
  \<^verbatim>\<open>standard_b64encode\<close> of the standard library: three octets become four characters
  of the alphabet \<^verbatim>\<open>A-Z a-z 0-9 + /\<close>, six bits each, and an incomplete last group is
  padded with \<^verbatim>\<open>=\<close>.
\<close>

definition b64_alphabet :: string where
  "b64_alphabet = ''ABCDEFGHIJKLMNOPQRSTUVWXYZabcdefghijklmnopqrstuvwxyz0123456789+/''"

definition b64_char :: "nat \<Rightarrow> char" where
  "b64_char i = b64_alphabet ! i"

definition sextets :: "nat \<Rightarrow> nat \<Rightarrow> nat \<Rightarrow> nat list" where
  "sextets a b c = [a div 4, a mod 4 * 16 + b div 16, b mod 16 * 4 + c div 64, c mod 64]"

fun standard_b64encode :: "bytes \<Rightarrow> bytes" where
  "standard_b64encode [] = []"
| "standard_b64encode [a] =
     map b64_char (take 2 (sextets (of_char a) 0 0)) @ ''==''"
| "standard_b64encode [a, b] =
     map b64_char (take 3 (sextets (of_char a) (of_char b) 0)) @ ''=''"
| "standard_b64encode (a # b # c # rest) =
     map b64_char (sextets (of_char a) (of_char b) (of_char c)) @ standard_b64encode rest"

text \<open>
  The decoder of the receiving side: the inverse of the alphabet, one group of four
  characters at a time, the padding accepted in the last group only.
\<close>

fun index_of :: "'a \<Rightarrow> 'a list \<Rightarrow> nat option" where
  "index_of x [] = None"
| "index_of x (y # ys) = (if x = y then Some 0 else map_option Suc (index_of x ys))"

definition b64_index :: "char \<Rightarrow> nat option" where
  "b64_index c = index_of c b64_alphabet"

definition octets :: "nat \<Rightarrow> nat \<Rightarrow> nat \<Rightarrow> nat \<Rightarrow> bytes" where
  "octets i1 i2 i3 i4 =
     [char_of (i1 * 4 + i2 div 16), char_of (i2 mod 16 * 16 + i3 div 4),
      char_of (i3 mod 4 * 64 + i4)]"

fun b64decode :: "bytes \<Rightarrow> bytes option" where
  "b64decode [] = Some []"
| "b64decode (c1 # c2 # c3 # c4 # rest) =
     (case (b64_index c1, b64_index c2) of
        (Some i1, Some i2) \<Rightarrow>
          if c3 = CHR ''='' \<and> c4 = CHR ''='' \<and> rest = [] then
            Some (take 1 (octets i1 i2 0 0))
          else
            (case b64_index c3 of
               Some i3 \<Rightarrow>
                 if c4 = CHR ''='' \<and> rest = [] then
                   Some (take 2 (octets i1 i2 i3 0))
                 else
                   (case b64_index c4 of
                      Some i4 \<Rightarrow> map_option ((@) (octets i1 i2 i3 i4)) (b64decode rest)
                    | None \<Rightarrow> None)
             | None \<Rightarrow> None)
      | _ \<Rightarrow> None)"
| "b64decode _ = None"

subsection \<open>The chunk encoder\<close>

text \<open>
  \<^verbatim>\<open>write_gr_cmd(cmd, chunk)\<close> serializes the command dictionary as it is at the call
  and writes it with the payload; the serializer lives outside this file, so a frame is
  the pair of the two arguments. The \<^verbatim>\<open>while data:\<close> loop of \<^verbatim>\<open>write_chunked\<close> carries
  the dictionary, the rest of the data and the frames written so far.
\<close>

type_synonym frame = "command \<times> bytes"

function chunk_loop :: "command \<Rightarrow> bytes \<Rightarrow> frame list \<Rightarrow> frame list \<times> command" where
  "chunk_loop cmd data out =
     (if data = [] then (out, cmd)
      else
        let chunk = take 4096 data;
            data = drop 4096 data;
            m = (if data \<noteq> [] then 1 else 0);
            cmd = cmd_set ''m'' (VInt m) cmd;
            out = out @ [(cmd, chunk)];
            cmd = []
        in chunk_loop cmd data out)"
  by pat_completeness auto

termination
  by (relation "measure (\<lambda>(cmd, data, out). length data)") auto

declare chunk_loop.simps [simp del]

text \<open>
  \<^verbatim>\<open>zlib.compress\<close> is a parameter. \<^verbatim>\<open>cmd['f']\<close> raises \<^verbatim>\<open>KeyError\<close> when the key is
  missing. The result is the frames written and the dictionary as the caller finds it
  afterwards.
\<close>

definition write_chunked ::
  "(bytes \<Rightarrow> bytes) \<Rightarrow> command \<Rightarrow> bytes \<Rightarrow> py_error + (frame list \<times> command)" where
  "write_chunked compress cmd data =
     (case cmd_get cmd ''f'' of
        Inl e \<Rightarrow> Inl e
      | Inr f \<Rightarrow>
          let (data, cmd) =
                (if f \<noteq> VInt 100 then (compress data, cmd_set ''o'' (VStr ''z'') cmd)
                 else (data, cmd));
              data = standard_b64encode data
          in Inr (chunk_loop cmd data []))"

text \<open>The more-chunks flag \<^verbatim>\<open>m\<close> of a frame, if it carries one.\<close>

definition more_chunks :: "frame \<Rightarrow> gr_val option" where
  "more_chunks fr = map_of (fst fr) ''m''"

text \<open>The number of frames that carry \<^verbatim>\<open>m=0\<close>.\<close>

definition count_final :: "frame list \<Rightarrow> nat" where
  "count_final frames = length (filter (\<lambda>fr. more_chunks fr = Some (VInt 0)) frames)"

text \<open>
  What the receiver does with the frames: concatenate the payloads in the order of
  emission, decode base 64 and, for compressed data, decompress.
\<close>

definition decode_frames :: "(bytes \<Rightarrow> bytes option) \<Rightarrow> bool \<Rightarrow> frame list \<Rightarrow> bytes option" where
  "decode_frames decompress compressed frames =
     (case b64decode (concat (map snd frames)) of
        None \<Rightarrow> None
      | Some raw \<Rightarrow> if compressed then decompress raw else Some raw)"

subsection \<open>The per-item loop of main\<close>

text \<open>
  An item is a path from the command line or the bytes read from the standard input.
  The file system is seen through \<^verbatim>\<open>os.path.isdir\<close>, through the pairs of path and
  mime type that \<^verbatim>\<open>scan\<close> yields for a directory, and through the name of the temporary
  file that receives the bytes of an item.
\<close>

datatype item = Path string | Data bytes

record files =
  isdir :: "string \<Rightarrow> bool"
  scan :: "string \<Rightarrow> (string \<times> string) list"
  tempfile_name :: "bytes \<Rightarrow> string"

text \<open>
  A call of \<^verbatim>\<open>process\<close> passes positional arguments. The record of a run keeps every
  call made with its arguments, the paths for which the body of \<^verbatim>\<open>process\<close> was
  entered, and the list \<^verbatim>\<open>errors\<close> of main.
\<close>

datatype py_arg = ArgStr string | ArgArgs args | ArgBool bool

record run =
  calls :: "py_arg list list"
  transferred :: "string list"
  errors :: "py_error list"

text \<open>
  \<^verbatim>\<open>def process(path, args, is_tempfile)\<close> has three parameters and no default: a call
  with another number of arguments raises \<^verbatim>\<open>TypeError\<close> before the body is entered. The
  body (identify, convert, show) is a parameter.
\<close>

definition process_call ::
  "(string \<Rightarrow> args \<Rightarrow> bool \<Rightarrow> py_error + unit) \<Rightarrow> py_arg list \<Rightarrow> run \<Rightarrow> (py_error + unit) \<times> run" where
  "process_call body argv st =
     (let st = st\<lparr>calls := calls st @ [argv]\<rparr> in
      case argv of
        [ArgStr path, ArgArgs a, ArgBool is_tempfile] \<Rightarrow>
          (body path a is_tempfile, st\<lparr>transferred := transferred st @ [path]\<rparr>)
      | _ \<Rightarrow> (Inl TypeError, st))"

text \<open>\<^verbatim>\<open>for x in scan(item): process(item, args)\<close>.\<close>

fun scan_loop ::
  "(string \<Rightarrow> args \<Rightarrow> bool \<Rightarrow> py_error + unit) \<Rightarrow> args \<Rightarrow> string \<Rightarrow> (string \<times> string) list \<Rightarrow>
   run \<Rightarrow> (py_error + unit) \<times> run" where
  "scan_loop body a item [] st = (Inr (), st)"
| "scan_loop body a item (x # xs) st =
     (case process_call body [ArgStr item, ArgArgs a] st of
        (Inl e, st') \<Rightarrow> (Inl e, st')
      | (Inr u, st') \<Rightarrow> scan_loop body a item xs st')"

text \<open>The body of the \<^verbatim>\<open>try\<close> statement for one item.\<close>

definition process_item ::
  "(string \<Rightarrow> args \<Rightarrow> bool \<Rightarrow> py_error + unit) \<Rightarrow> files \<Rightarrow> args \<Rightarrow> item \<Rightarrow> run \<Rightarrow>
   (py_error + unit) \<times> run" where
  "process_item body fs a item st =
     (let (item, is_tempfile) =
            (case item of Data d \<Rightarrow> (tempfile_name fs d, True) | Path p \<Rightarrow> (p, False))
      in
        if isdir fs item then scan_loop body a item (scan fs item) st
        else process_call body [ArgStr item, ArgArgs a, ArgBool is_tempfile] st)"

text \<open>
  The loop over the items with its handlers: \<^verbatim>\<open>NoImageMagick\<close> and \<^verbatim>\<open>ConvertFailed\<close>
  become \<^verbatim>\<open>SystemExit\<close>, \<^verbatim>\<open>OpenFailed\<close> is appended to \<^verbatim>\<open>errors\<close> and the loop goes on,
  any other exception leaves the loop.
\<close>

fun item_loop ::
  "(string \<Rightarrow> args \<Rightarrow> bool \<Rightarrow> py_error + unit) \<Rightarrow> files \<Rightarrow> args \<Rightarrow> item list \<Rightarrow> run \<Rightarrow>
   (py_error + unit) \<times> run" where
  "item_loop body fs a [] st = (Inr (), st)"
| "item_loop body fs a (item # items) st =
     (case process_item body fs a item st of
        (Inr u, st') \<Rightarrow> item_loop body fs a items st'
      | (Inl e, st') \<Rightarrow>
          if e = NoImageMagick \<or> e = ConvertFailed then (Inl SystemExit, st')
          else if e = OpenFailed then
            item_loop body fs a items (st'\<lparr>errors := errors st' @ [e]\<rparr>)
          else (Inl e, st'))"

subsection \<open>Place specifications\<close>

text \<open>
  \<^verbatim>\<open>s.split(sep)\<close> cuts at every separator and \<^verbatim>\<open>s.split(sep, 1)\<close> at the first one
  only; a string without the separator is the single piece.
\<close>

fun split_on :: "char \<Rightarrow> string \<Rightarrow> string list" where
  "split_on sep [] = [[]]"
| "split_on sep (c # cs) =
     (if c = sep then [] # split_on sep cs
      else let ps = split_on sep cs in (c # hd ps) # tl ps)"

definition split_first :: "char \<Rightarrow> string \<Rightarrow> string list" where
  "split_first sep s =
     (if sep \<in> set s
      then [takeWhile (\<lambda>c. c \<noteq> sep) s, tl (dropWhile (\<lambda>c. c \<noteq> sep) s)]
      else [s])"

text \<open>
  \<^verbatim>\<open>a, b = map(int, parts)\<close>: there must be exactly two parts and \<^verbatim>\<open>int\<close> must accept
  both; a wrong number of parts and a part that \<^verbatim>\<open>int\<close> refuses both raise
  \<^verbatim>\<open>ValueError\<close>. The conversion \<^verbatim>\<open>int\<close> of the interpreter is a parameter.
\<close>

definition unpack_ints :: "(string \<Rightarrow> int option) \<Rightarrow> string list \<Rightarrow> py_error + int \<times> int" where
  "unpack_ints to_int parts =
     (case parts of
        [p, q] \<Rightarrow>
          (case to_int p of
             None \<Rightarrow> Inl ValueError
           | Some a \<Rightarrow>
               (case to_int q of
                  None \<Rightarrow> Inl ValueError
                | Some b \<Rightarrow> Inr (a, b)))
      | _ \<Rightarrow> Inl ValueError)"

text \<open>
  \<^verbatim>\<open>parse_place\<close>: the option value is \<^verbatim>\<open>None\<close> when \<^verbatim>\<open>--place\<close> is not given, and
  \<^verbatim>\<open>if raw:\<close> is false for \<^verbatim>\<open>None\<close> and for the empty string; the function then falls
  off its end and returns \<^verbatim>\<open>None\<close>.
\<close>

definition parse_place :: "(string \<Rightarrow> int option) \<Rightarrow> string option \<Rightarrow> py_error + Place option" where
  "parse_place to_int raw =
     (case raw of
        None \<Rightarrow> Inr None
      | Some r \<Rightarrow>
          if r = [] then Inr None
          else
            (case split_first CHR ''@'' r of
               [area, pos] \<Rightarrow>
                 (case unpack_ints to_int (split_on CHR ''x'' area) of
                    Inl e \<Rightarrow> Inl e
                  | Inr (w, h) \<Rightarrow>
                      (case unpack_ints to_int (split_on CHR ''x'' pos) of
                         Inl e \<Rightarrow> Inl e
                       | Inr (l, t) \<Rightarrow>
                           Inr (Some \<lparr>width = w, height = h, left = l, top = t\<rparr>)))
             | _ \<Rightarrow> Inl ValueError))"

text \<open>
  Lines 286 to 289 of \<^verbatim>\<open>main\<close>: any exception of \<^verbatim>\<open>parse_place\<close> becomes
  \<^verbatim>\<open>SystemExit\<close>; everything \<^verbatim>\<open>main\<close> does afterwards, the transfers among it, is the
  continuation \<open>rest\<close>.
\<close>

definition main_place ::
  "(string \<Rightarrow> int option) \<Rightarrow> string option \<Rightarrow> (Place option \<Rightarrow> py_error + 'r) \<Rightarrow> py_error + 'r" where
  "main_place to_int raw rest =
     (case parse_place to_int raw of
        Inl e \<Rightarrow> Inl SystemExit
      | Inr place \<Rightarrow> rest place)"

text \<open>
  \<^verbatim>\<open>int(s)\<close> for a string of 8-bit characters: white space around the literal is
  dropped, then come an optional sign and decimal digits, in which single underscores
  may separate digits.
\<close>

definition py_isspace :: "char \<Rightarrow> bool" where
  "py_isspace c = (of_char c \<in> {9, 10, 11, 12, 13, 28, 29, 30, 31, 32, 133, 160 :: nat})"

definition py_isdigit :: "char \<Rightarrow> bool" where
  "py_isdigit c = (48 \<le> (of_char c :: nat) \<and> (of_char c :: nat) \<le> 57)"

definition digit_value :: "char \<Rightarrow> nat" where
  "digit_value c = of_char c - 48"

fun digits_value :: "nat \<Rightarrow> string \<Rightarrow> nat option" where
  "digits_value acc [] = Some acc"
| "digits_value acc [c] =
     (if py_isdigit c then Some (acc * 10 + digit_value c) else None)"
| "digits_value acc (c # d # cs) =
     (if py_isdigit c then digits_value (acc * 10 + digit_value c) (d # cs)
      else if c = CHR ''_'' \<and> py_isdigit d then digits_value (acc * 10 + digit_value d) cs
      else None)"

definition py_int :: "string \<Rightarrow> int option" where
  "py_int s =
     (let t = rev (dropWhile py_isspace (rev (dropWhile py_isspace s)));
          (negative, u) =
            (case t of
               [] \<Rightarrow> (False, t)
             | c # cs \<Rightarrow>
                 if c = CHR ''-'' then (True, cs)
                 else if c = CHR ''+'' then (False, cs)
                 else (False, t))
      in case u of
           [] \<Rightarrow> None
         | c # cs \<Rightarrow>
             if py_isdigit c
             then map_option (\<lambda>n. if negative then - int n else int n)
                    (digits_value (digit_value c) cs)
             else None)"

section \<open>Theorems\<close>

subsection \<open>In-cell offset\<close>

text \<open>
  C1 (as the specification states it): the offset is the remainder \<open>W mod C\<close> for right
  alignment and half of it for center alignment. The code returns the space left in
  the last cell instead: for a one-pixel image in three-pixel cells, right aligned, it
  returns 2, not the remainder 1.
\<close>

theorem in_cell_offset_remainder_counterexample:
  "calculate_in_cell_x_offset 1 3 ''right'' = Inr 2 \<and>
   spec_in_cell_x_offset 1 3 ''right'' = 1 \<and>
   calculate_in_cell_x_offset 1 3 ''right'' \<noteq> Inr (spec_in_cell_x_offset 1 3 ''right'')"
  by (simp add: calculate_in_cell_x_offset_def spec_in_cell_x_offset_def)

text \<open>
  C1 (amended): for every pixel width \<open>W \<ge> 0\<close>, cell pixel width \<open>C > 0\<close> and alignment
  among left, center and right, the offset is 0 for left alignment or when \<open>C\<close> divides
  \<open>W\<close>; otherwise it is the complement of the remainder, \<open>C - W mod C\<close>, for right
  alignment and half of that complement, rounded down, for center alignment.
\<close>

theorem in_cell_offset_complement:
  assumes "0 \<le> W" and "0 < C" and "align \<in> {''left'', ''center'', ''right''}"
  shows "calculate_in_cell_x_offset W C align =
           Inr (if align = ''left'' \<or> W mod C = 0 then 0
                else if align = ''right'' then C - W mod C
                else (C - W mod C) div 2)"
  using assms by (auto simp: calculate_in_cell_x_offset_def Let_def)

theorem in_cell_offset_complement_witness:
  "calculate_in_cell_x_offset 25 10 ''center'' = Inr 2 \<and>
   calculate_in_cell_x_offset 25 10 ''right'' = Inr 5 \<and>
   calculate_in_cell_x_offset 25 10 ''left'' = Inr 0"
  using in_cell_offset_complement [of 25 10 "''center''"]
    in_cell_offset_complement [of 25 10 "''right''"]
    in_cell_offset_complement [of 25 10 "''left''"]
  by simp

subsection \<open>Placement in an explicit rectangle\<close>

lemma str_int_small: "str_int 4 = ''4''"
  by (simp add: str_int_def str_nat.simps)

lemma cells_needed_nonzero: "num_of_cells_needed w cw = Inr n \<Longrightarrow> cw \<noteq> 0"
  by (auto simp: num_of_cells_needed_def py_truediv_def split: if_splits)

lemma offset_defined: "cw \<noteq> 0 \<Longrightarrow> \<exists>off. calculate_in_cell_x_offset w cw align = Inr off"
  by (simp add: calculate_in_cell_x_offset_def Let_def)

text \<open>
  C3 (as the specification states it): for the rectangle \<open>8x4@2x3\<close> and an image five
  cells wide, centered, the cursor goes to row 4, column 5. On an 800 pixel, 80 column
  screen a 50 pixel image needs five cells, and the sequence written is not the one for
  column 5.
\<close>

theorem place_8x4_at_2x3_column_5_counterexample:
  "num_of_cells_needed 50 10 = Inr 5 \<and>
   map_sum id snd
     (set_cursor_for_place \<lparr>ss_width = 800, ss_height = 600, ss_cols = 80, ss_rows = 24\<rparr>
        \<lparr>width = 8, height = 4, left = 2, top = 3\<rparr> [] 50 30 ''center'')
   \<noteq> Inr (CHR 0x1B # ''[4;5H'')"
  by (simp add: set_cursor_for_place_def cell_width_def py_truediv_def py_int_of_float_def
      num_of_cells_needed_def calculate_in_cell_x_offset_def place_extra_cells_def
      cursor_position_def str_int_def str_nat.simps cmd_set_def)

text \<open>
  C3 (amended): for the rectangle \<open>8x4@2x3\<close> and an image whose width needs five cells,
  at center alignment, \<^verbatim>\<open>set_cursor_for_place\<close> writes the cursor-position sequence for
  row 4 and column 4, that is column \<open>2 + 1 + (8 - 5) div 2\<close>.
\<close>

theorem place_8x4_at_2x3_center:
  assumes "cell_width ss = Inr cw" and "num_of_cells_needed w cw = Inr 5"
  shows "map_sum id snd
           (set_cursor_for_place ss \<lparr>width = 8, height = 4, left = 2, top = 3\<rparr> cmd w h ''center'')
         = Inr (CHR 0x1B # ''[4;4H'')"
proof -
  from assms(2) have "cw \<noteq> 0" by (rule cells_needed_nonzero)
  then obtain off where "calculate_in_cell_x_offset w cw ''center'' = Inr off"
    using offset_defined by blast
  with assms show ?thesis
    by (simp add: set_cursor_for_place_def place_extra_cells_def cursor_position_def
        str_int_small)
qed

theorem place_8x4_at_2x3_center_witness:
  "map_sum id snd
     (set_cursor_for_place \<lparr>ss_width = 800, ss_height = 600, ss_cols = 80, ss_rows = 24\<rparr>
        \<lparr>width = 8, height = 4, left = 2, top = 3\<rparr> [] 50 30 ''center'')
   = Inr (CHR 0x1B # ''[4;4H'')"
  using place_8x4_at_2x3_center
    [of "\<lparr>ss_width = 800, ss_height = 600, ss_cols = 80, ss_rows = 24\<rparr>" 10 50 "[]" 30]
  by (simp add: cell_width_def py_truediv_def py_int_of_float_def num_of_cells_needed_def)

text \<open>
  C8 (as the specification states it): whenever the rectangle is narrower than the
  image's cell footprint, \<open>extraCells\<close> is negative and the cursor lands left of the
  rectangle's origin. With left alignment \<open>extraCells\<close> is 0: a rectangle two cells wide
  at column 7 and a five-cell image put the cursor on column 8, the origin itself.
\<close>

theorem narrow_place_left_counterexample:
  "num_of_cells_needed 50 10 = Inr 5 \<and>
   width \<lparr>width = 2, height = 4, left = 7, top = 3\<rparr> < 5 \<and>
   place_extra_cells \<lparr>width = 2, height = 4, left = 7, top = 3\<rparr> 5 ''left'' = 0 \<and>
   map_sum id snd
     (set_cursor_for_place \<lparr>ss_width = 800, ss_height = 600, ss_cols = 80, ss_rows = 24\<rparr>
        \<lparr>width = 2, height = 4, left = 7, top = 3\<rparr> [] 50 30 ''left'')
   = Inr (CHR 0x1B # ''[4;8H'')"
  by (simp add: set_cursor_for_place_def cell_width_def py_truediv_def py_int_of_float_def
      num_of_cells_needed_def calculate_in_cell_x_offset_def place_extra_cells_def
      cursor_position_def str_int_def str_nat.simps cmd_set_def)

text \<open>
  C8 (amended): for every explicit Place whose width is smaller than the number \<open>n\<close> of
  cells the image needs, \<^verbatim>\<open>set_cursor_for_place\<close> raises no error and does not clamp:
  it writes exactly the bytes \<open>ESC [ row ; col H\<close> with row \<open>place.top + 1\<close> and column
  \<open>place.left + 1 + extraCells\<close> in decimal, where \<open>extraCells\<close> is
  \<open>(place.width - n) div 2\<close> for center alignment and \<open>place.width - n\<close> for right
  alignment, both negative, so that the column is left of the rectangle's origin, and
  0 for any other alignment, so that the column is the origin \<open>place.left + 1\<close>.
\<close>

theorem narrow_place_no_clamp:
  assumes "cell_width ss = Inr cw" and "num_of_cells_needed w cw = Inr n"
    and "width place < n"
  shows "map_sum id snd (set_cursor_for_place ss place cmd w h align) =
           Inr (CHR 0x1B # ''['' @ str_int (top place + 1) @ '';'' @
                str_int (left place + 1 +
                         (if align = ''center'' then (width place - n) div 2
                          else if align = ''right'' then width place - n
                          else 0)) @ ''H'') \<and>
         (width place - n) div 2 < 0 \<and> width place - n < 0"
proof (intro conjI)
  from assms(2) have "cw \<noteq> 0" by (rule cells_needed_nonzero)
  then obtain off where "calculate_in_cell_x_offset w cw align = Inr off"
    using offset_defined by blast
  with assms(1,2) show "map_sum id snd (set_cursor_for_place ss place cmd w h align) =
           Inr (CHR 0x1B # ''['' @ str_int (top place + 1) @ '';'' @
                str_int (left place + 1 +
                         (if align = ''center'' then (width place - n) div 2
                          else if align = ''right'' then width place - n
                          else 0)) @ ''H'')"
    by (simp add: set_cursor_for_place_def place_extra_cells_def cursor_position_def)
next
  from assms(3) show "(width place - n) div 2 < 0" by simp
next
  from assms(3) show "width place - n < 0" by simp
qed

theorem narrow_place_no_clamp_witness:
  "map_sum id snd
     (set_cursor_for_place \<lparr>ss_width = 800, ss_height = 600, ss_cols = 80, ss_rows = 24\<rparr>
        \<lparr>width = 2, height = 4, left = 0, top = 3\<rparr> [] 50 30 ''right'')
   = Inr (CHR 0x1B # ''[4;-2H'') \<and>
   map_sum id snd
     (set_cursor_for_place \<lparr>ss_width = 800, ss_height = 600, ss_cols = 80, ss_rows = 24\<rparr>
        \<lparr>width = 2, height = 4, left = 7, top = 3\<rparr> [] 50 30 ''center'')
   = Inr (CHR 0x1B # ''[4;6H'')"
  using narrow_place_no_clamp
    [of "\<lparr>ss_width = 800, ss_height = 600, ss_cols = 80, ss_rows = 24\<rparr>" 10 50 5
        "\<lparr>width = 2, height = 4, left = 0, top = 3\<rparr>" "[]" 30 "''right''"]
    narrow_place_no_clamp
    [of "\<lparr>ss_width = 800, ss_height = 600, ss_cols = 80, ss_rows = 24\<rparr>" 10 50 5
        "\<lparr>width = 2, height = 4, left = 7, top = 3\<rparr>" "[]" 30 "''center''"]
  by (simp add: cell_width_def py_truediv_def py_int_of_float_def num_of_cells_needed_def
      str_int_def str_nat.simps)

subsection \<open>The target box and the scaling decision\<close>

text \<open>
  C2 (as the specification states it): without a Place the box is the terminal's pixel
  width by ten screen pixel heights. An image 100 pixels wide and 7000 pixels high on an
  800 by 600 pixel screen exceeds that box (7000 is more than 6000), yet the code does
  not ask for scaling: its box is ten times the image's own height.
\<close>

theorem needs_scaling_screen_heights_counterexample:
  "needs_scaling unrounded \<lparr>ss_width = 800, ss_height = 600, ss_cols = 80, ss_rows = 24\<rparr>
     \<lparr>args_place = None, args_scale_up = False, args_align = ''center''\<rparr>
     \<lparr>m_width = 100, m_height = 7000, m_mode = ''rgb'', m_fmt = ''png''\<rparr> = Inr False \<and>
   spec_needs_scaling \<lparr>ss_width = 800, ss_height = 600, ss_cols = 80, ss_rows = 24\<rparr>
     \<lparr>args_place = None, args_scale_up = False, args_align = ''center''\<rparr>
     \<lparr>m_width = 100, m_height = 7000, m_mode = ''rgb'', m_fmt = ''png''\<rparr>"
  by (simp add: needs_scaling_def available_width_def available_height_def py_gt_def
      spec_needs_scaling_def)

text \<open>
  C2 (amended): when no explicit Place is given, \<^verbatim>\<open>process\<close> computes the available
  target box as the terminal's pixel width by ten times the image's own pixel height,
  and sets needsScaling true exactly when the image's pixel width or height exceeds
  that box, or when the scale-up flag is set; for an image of non-negative height that
  is exactly when the image is wider than the terminal or the flag is set.
\<close>

theorem needs_scaling_without_place:
  assumes "args_place a = None"
  shows "available_width fo ss a = Inr (PInt (ss_width ss)) \<and>
         available_height fo ss a m = Inr (PInt (10 * m_height m)) \<and>
         needs_scaling fo ss a m =
           Inr (m_width m > ss_width ss \<or> m_height m > 10 * m_height m \<or> args_scale_up a) \<and>
         (0 \<le> m_height m \<longrightarrow>
            needs_scaling fo ss a m = Inr (m_width m > ss_width ss \<or> args_scale_up a))"
  using assms
  by (auto simp: needs_scaling_def available_width_def available_height_def py_gt_def Let_def)

theorem needs_scaling_without_place_witness:
  "needs_scaling unrounded \<lparr>ss_width = 800, ss_height = 600, ss_cols = 80, ss_rows = 24\<rparr>
     \<lparr>args_place = None, args_scale_up = False, args_align = ''center''\<rparr>
     \<lparr>m_width = 900, m_height = 50, m_mode = ''rgb'', m_fmt = ''png''\<rparr> = Inr True"
  using needs_scaling_without_place
    [of "\<lparr>args_place = None, args_scale_up = False, args_align = ''center''\<rparr>"
        unrounded
        "\<lparr>ss_width = 800, ss_height = 600, ss_cols = 80, ss_rows = 24\<rparr>"
        "\<lparr>m_width = 900, m_height = 50, m_mode = ''rgb'', m_fmt = ''png''\<rparr>"]
  by simp

subsection \<open>Base 64 round trip\<close>

lemma b64_table_check:
  "list_all (\<lambda>i. b64_index (b64_char i) = Some i \<and> b64_char i \<noteq> CHR ''='') [0..<64]"
  by code_simp

lemma b64_index_char: "i < 64 \<Longrightarrow> b64_index (b64_char i) = Some i"
  using b64_table_check by (simp add: list_all_iff)

lemma b64_char_not_pad: "i < 64 \<Longrightarrow> b64_char i \<noteq> CHR ''=''"
  using b64_table_check by (simp add: list_all_iff)

lemma of_char_lt: "(of_char (c::char) :: nat) < 256"
  by (metis of_char_mod_256 mod_less_divisor zero_less_numeral)


lemma sextets_lt:
  assumes "a < 256" "b < 256" "c < 256"
  shows "a div 4 < 64" "a mod 4 * 16 + b div 16 < 64" "b mod 16 * 4 + c div 64 < 64"
    "c mod 64 < (64::nat)"
  using assms by arith+

lemma octets_back1:
  fixes a b c :: nat
  assumes "b < 256"
  shows "a div 4 * 4 + (a mod 4 * 16 + b div 16) div 16 = a"
proof -
  have "b div 16 < 16" using assms by arith
  then have "(a mod 4 * 16 + b div 16) div 16 = a mod 4" by simp
  then show ?thesis by simp
qed

lemma octets_back2:
  fixes a b c :: nat
  assumes "b < 256" "c < 256"
  shows "(a mod 4 * 16 + b div 16) mod 16 * 16 + (b mod 16 * 4 + c div 64) div 4 = b"
proof -
  have 1: "b div 16 < 16" using assms by arith
  have 2: "c div 64 < 4" using assms by arith
  have "(a mod 4 * 16 + b div 16) mod 16 = b div 16" using 1 by simp
  moreover have "(b mod 16 * 4 + c div 64) div 4 = b mod 16" using 2 by simp
  ultimately show ?thesis by simp
qed

lemma octets_back3:
  fixes a b c :: nat
  assumes "c < 256"
  shows "(b mod 16 * 4 + c div 64) mod 4 * 64 + c mod 64 = c"
proof -
  have 2: "c div 64 < 4" using assms by arith
  have "(b mod 16 * 4 + c div 64) mod 4 = c div 64" using 2 by simp
  then show ?thesis by simp
qed


lemma b64decode_group:
  assumes "s1 < 64" "s2 < 64" "s3 < 64" "s4 < 64"
  shows "b64decode (b64_char s1 # b64_char s2 # b64_char s3 # b64_char s4 # rest) =
           map_option ((@) (octets s1 s2 s3 s4)) (b64decode rest)"
  using assms by (simp add: b64_index_char b64_char_not_pad)

lemma b64decode_pad1:
  assumes "s1 < 64" "s2 < 64" "s3 < 64"
  shows "b64decode [b64_char s1, b64_char s2, b64_char s3, CHR ''=''] =
           Some (take 2 (octets s1 s2 s3 0))"
  using assms by (simp add: b64_index_char b64_char_not_pad)

lemma b64decode_pad2:
  assumes "s1 < 64" "s2 < 64"
  shows "b64decode [b64_char s1, b64_char s2, CHR ''='', CHR ''=''] =
           Some (take 1 (octets s1 s2 0 0))"
  using assms by (simp add: b64_index_char)

lemma octets_take2:
  "take 2 (octets i1 i2 i3 i4) =
     [char_of (i1 * 4 + i2 div 16), char_of (i2 mod 16 * 16 + i3 div 4)]"
  by (simp add: octets_def)

lemma char_back: "char_of (of_char c :: nat) = c"
  by simp

lemma b64_roundtrip: "b64decode (standard_b64encode bs) = Some bs"
proof (induction bs rule: standard_b64encode.induct)
  case 1
  show ?case by simp
next
  case (2 a)
  let ?A = "of_char a :: nat"
  have A: "?A < 256" by (rule of_char_lt)
  have s1: "?A div 4 < 64" using A by arith
  have s2: "?A mod 4 * 16 < 64" by arith
  have enc: "standard_b64encode [a] =
      [b64_char (?A div 4), b64_char (?A mod 4 * 16), CHR ''='', CHR ''='']"
    by (simp add: sextets_def)
  have "b64decode (standard_b64encode [a]) = Some (take 1 (octets (?A div 4) (?A mod 4 * 16) 0 0))"
    unfolding enc by (rule b64decode_pad2 [OF s1 s2])
  also have "\<dots> = Some [a]" by (simp add: octets_def)
  finally show ?case .
next
  case (3 a b)
  let ?A = "of_char a :: nat" and ?B = "of_char b :: nat"
  have A: "?A < 256" and B: "?B < 256" by (rule of_char_lt)+
  have s1: "?A div 4 < 64" using A by arith
  have s2: "?A mod 4 * 16 + ?B div 16 < 64" using B by arith
  have s3: "?B mod 16 * 4 < 64" by arith
  have enc: "standard_b64encode [a, b] =
      [b64_char (?A div 4), b64_char (?A mod 4 * 16 + ?B div 16), b64_char (?B mod 16 * 4),
       CHR ''='']"
    by (simp add: sextets_def)
  have "b64decode (standard_b64encode [a, b]) =
      Some (take 2 (octets (?A div 4) (?A mod 4 * 16 + ?B div 16) (?B mod 16 * 4) 0))"
    unfolding enc by (rule b64decode_pad1 [OF s1 s2 s3])
  also have "\<dots> = Some [a, b]"
  proof -
    have e1: "?A div 4 * 4 + (?A mod 4 * 16 + ?B div 16) div 16 = ?A"
      by (rule octets_back1 [OF B])
    have e2: "(?A mod 4 * 16 + ?B div 16) mod 16 * 16 + ?B mod 16 * 4 div 4 = ?B"
    proof -
      have "?B div 16 < 16" using B by arith
      then have "(?A mod 4 * 16 + ?B div 16) mod 16 = ?B div 16" by simp
      moreover have "?B mod 16 * 4 div 4 = ?B mod 16" by simp
      ultimately show ?thesis by simp
    qed
    show ?thesis by (simp only: octets_take2 e1 e2 char_back)
  qed
  finally show ?case .
next
  case (4 a b c rest)
  let ?A = "of_char a :: nat" and ?B = "of_char b :: nat" and ?C = "of_char c :: nat"
  have A: "?A < 256" and B: "?B < 256" and C: "?C < 256" by (rule of_char_lt)+
  note s = sextets_lt [OF A B C]
  have enc: "standard_b64encode (a # b # c # rest) =
      b64_char (?A div 4) # b64_char (?A mod 4 * 16 + ?B div 16) #
      b64_char (?B mod 16 * 4 + ?C div 64) # b64_char (?C mod 64) # standard_b64encode rest"
    by (simp add: sextets_def)
  have "b64decode (standard_b64encode (a # b # c # rest)) =
      map_option ((@) (octets (?A div 4) (?A mod 4 * 16 + ?B div 16)
                         (?B mod 16 * 4 + ?C div 64) (?C mod 64)))
        (b64decode (standard_b64encode rest))"
    unfolding enc by (rule b64decode_group [OF s])
  also have "\<dots> = Some (a # b # c # rest)"
    using octets_back1 [OF B, of ?A] octets_back2 [OF B C, of ?A] octets_back3 [OF C, of ?B]
    by (simp add: octets_def "4.IH")
  finally show ?case .
qed

lemma b64encode_empty: "standard_b64encode bs = [] \<longleftrightarrow> bs = []"
  by (induction bs rule: standard_b64encode.induct) (simp_all add: sextets_def)

lemma b64_example: "standard_b64encode ''abcd'' = ''YWJjZA==''"
  by (simp add: sextets_def b64_char_def b64_alphabet_def)

subsection \<open>The chunk encoder\<close>

lemma chunk_loop_empty: "chunk_loop cmd [] out = (out, cmd)"
  by (simp add: chunk_loop.simps)

lemma chunk_loop_step:
  "data \<noteq> [] \<Longrightarrow>
   chunk_loop cmd data out =
     chunk_loop [] (drop 4096 data)
       (out @ [(cmd_set ''m'' (VInt (if drop 4096 data \<noteq> [] then 1 else 0)) cmd,
                take 4096 data)])"
  by (subst chunk_loop.simps) (simp add: Let_def)

lemma chunk_loop_concat:
  "concat (map snd (fst (chunk_loop cmd data out))) = concat (map snd out) @ data"
proof (induction cmd data out rule: chunk_loop.induct)
  case (1 cmd data out)
  show ?case
  proof (cases "data = []")
    case True
    then show ?thesis by (simp add: chunk_loop_empty)
  next
    case False
    show ?thesis
      using False "1.IH" [OF False refl refl refl refl refl refl]
      by (simp add: chunk_loop_step)
  qed
qed

lemma chunk_loop_induct [case_names empty step]:
  assumes "\<And>cmd out. P cmd [] out"
    and "\<And>cmd data out. data \<noteq> [] \<Longrightarrow>
           P [] (drop 4096 data)
             (out @ [(cmd_set ''m'' (VInt (if drop 4096 data \<noteq> [] then 1 else 0)) cmd,
                      take 4096 data)]) \<Longrightarrow>
           P cmd data out"
  shows "P cmd data out"
proof (induction data arbitrary: cmd out rule: length_induct)
  case (1 data cmd out)
  show ?case
  proof (cases "data = []")
    case True
    then show ?thesis using assms(1) by simp
  next
    case False
    then have "length (drop 4096 data) < length data" by simp
    with 1 have "P [] (drop 4096 data)
             (out @ [(cmd_set ''m'' (VInt (if drop 4096 data \<noteq> [] then 1 else 0)) cmd,
                      take 4096 data)])"
      by blast
    with False show ?thesis by (rule assms(2))
  qed
qed

lemma chunk_loop_payload:
  "(\<forall>fr \<in> set out. length (snd fr) \<le> 4096) \<Longrightarrow>
   (\<forall>fr \<in> set (fst (chunk_loop cmd data out)). length (snd fr) \<le> 4096)"
proof (induction cmd data out rule: chunk_loop_induct)
  case (empty cmd out)
  then show ?case by (simp add: chunk_loop_empty)
next
  case (step cmd data out)
  have eq: "chunk_loop cmd data out =
      chunk_loop [] (drop 4096 data)
        (out @ [(cmd_set ''m'' (VInt (if drop 4096 data \<noteq> [] then 1 else 0)) cmd,
                 take 4096 data)])"
    by (rule chunk_loop_step [OF step.hyps])
  show ?case unfolding eq
  proof (rule step.IH)
    show "\<forall>fr\<in>set (out @ [(cmd_set ''m'' (VInt (if drop 4096 data \<noteq> [] then 1 else 0)) cmd,
                 take 4096 data)]). length (snd fr) \<le> 4096"
      using step.prems by simp
  qed
qed

lemma more_chunks_set: "more_chunks (cmd_set ''m'' v cmd, chunk) = Some v"
  by (simp add: more_chunks_def cmd_set_def update_conv')

lemma chunk_loop_flags:
  "data \<noteq> [] \<Longrightarrow>
   \<exists>k. map more_chunks (fst (chunk_loop cmd data out)) =
     map more_chunks out @ replicate k (Some (VInt 1)) @ [Some (VInt 0)]"
proof (induction cmd data out rule: chunk_loop_induct)
  case (empty cmd out)
  then show ?case by simp
next
  case (step cmd data out)
  have eq: "chunk_loop cmd data out =
      chunk_loop [] (drop 4096 data)
        (out @ [(cmd_set ''m'' (VInt (if drop 4096 data \<noteq> [] then 1 else 0)) cmd,
                 take 4096 data)])"
    by (rule chunk_loop_step [OF step.hyps])
  show ?case
  proof (cases "drop 4096 data = []")
    case True
    have "map more_chunks (fst (chunk_loop cmd data out)) =
        map more_chunks out @ replicate 0 (Some (VInt 1)) @ [Some (VInt 0)]"
      unfolding eq True chunk_loop_empty by (simp add: more_chunks_set)
    then show ?thesis by (rule exI)
  next
    case False
    from step.IH [OF False] obtain k where
      "map more_chunks (fst (chunk_loop cmd data out)) =
         map more_chunks
           (out @ [(cmd_set ''m'' (VInt (if drop 4096 data \<noteq> [] then 1 else 0)) cmd,
                    take 4096 data)]) @
         replicate k (Some (VInt 1)) @ [Some (VInt 0)]"
      unfolding eq by blast
    with False have "map more_chunks (fst (chunk_loop cmd data out)) =
        map more_chunks out @ replicate (Suc k) (Some (VInt 1)) @ [Some (VInt 0)]"
      by (simp add: more_chunks_set)
    then show ?thesis by (rule exI)
  qed
qed

lemma chunk_loop_prefix: "\<exists>rest. fst (chunk_loop cmd data out) = out @ rest"
proof (induction cmd data out rule: chunk_loop_induct)
  case (empty cmd out)
  then show ?case by (simp add: chunk_loop_empty)
next
  case (step cmd data out)
  have eq: "chunk_loop cmd data out =
      chunk_loop [] (drop 4096 data)
        (out @ [(cmd_set ''m'' (VInt (if drop 4096 data \<noteq> [] then 1 else 0)) cmd,
                 take 4096 data)])"
    by (rule chunk_loop_step [OF step.hyps])
  from step.IH show ?case unfolding eq by auto
qed

lemma chunk_loop_first:
  assumes "data \<noteq> []"
  shows "\<exists>m rest. fst (chunk_loop cmd data []) = (cmd_set ''m'' (VInt m) cmd, take 4096 data) # rest"
proof -
  have eq: "chunk_loop cmd data [] =
      chunk_loop [] (drop 4096 data)
        ([] @ [(cmd_set ''m'' (VInt (if drop 4096 data \<noteq> [] then 1 else 0)) cmd,
                 take 4096 data)])"
    by (rule chunk_loop_step [OF assms])
  show ?thesis unfolding eq
    using chunk_loop_prefix [of "[]" "drop 4096 data"
        "[] @ [(cmd_set ''m'' (VInt (if drop 4096 data \<noteq> [] then 1 else 0)) cmd,
                 take 4096 data)]"]
    by auto
qed

text \<open>
  C5 (as the specification states it): for every input buffer exactly one frame carries
  \<open>m=0\<close>. For the empty buffer sent as format 100 nothing is compressed, the encoded
  data is empty, the loop body never runs and no frame at all is written.
\<close>

theorem write_chunked_empty_counterexample:
  "map_sum id (count_final \<circ> fst)
     (write_chunked id [(''a'', VStr ''T''), (''f'', VInt 100)] []) = Inr 0"
  by (simp add: write_chunked_def cmd_get_def chunk_loop_empty count_final_def)

text \<open>
  C5 (amended): for every command with a format key and every input buffer,
  \<^verbatim>\<open>write_chunked\<close> returns and no frame's payload exceeds 4096 encoded bytes. When the
  data to encode (the buffer, compressed unless the format is 100) is empty, no frame
  is emitted; otherwise exactly one frame carries \<open>m=0\<close>, it is the last frame emitted
  and every earlier frame carries \<open>m=1\<close>.
\<close>

theorem write_chunked_more_chunks:
  assumes "cmd_get cmd ''f'' = Inr f"
  shows "\<exists>frames cmd'.
           write_chunked compress cmd data = Inr (frames, cmd') \<and>
           (\<forall>fr \<in> set frames. length (snd fr) \<le> 4096) \<and>
           (if (if f \<noteq> VInt 100 then compress data else data) = [] then frames = []
            else map more_chunks frames =
                   replicate (length frames - 1) (Some (VInt 1)) @ [Some (VInt 0)])"
proof -
  define payload where "payload = (if f \<noteq> VInt 100 then compress data else data)"
  define cmd1 where "cmd1 = (if f \<noteq> VInt 100 then cmd_set ''o'' (VStr ''z'') cmd else cmd)"
  define frames where "frames = fst (chunk_loop cmd1 (standard_b64encode payload) [])"
  define cmd' where "cmd' = snd (chunk_loop cmd1 (standard_b64encode payload) [])"
  have run: "write_chunked compress cmd data = Inr (frames, cmd')"
    using assms by (simp add: write_chunked_def payload_def cmd1_def frames_def cmd'_def)
  have size: "\<forall>fr \<in> set frames. length (snd fr) \<le> 4096"
    unfolding frames_def by (rule chunk_loop_payload) simp
  have flags: "if payload = [] then frames = []
     else map more_chunks frames = replicate (length frames - 1) (Some (VInt 1)) @ [Some (VInt 0)]"
  proof (cases "payload = []")
    case True
    then show ?thesis by (simp add: frames_def chunk_loop_empty)
  next
    case False
    then have "standard_b64encode payload \<noteq> []" by (simp add: b64encode_empty)
    from chunk_loop_flags [OF this, of cmd1 "[]"] obtain k where
      k: "map more_chunks frames = replicate k (Some (VInt 1)) @ [Some (VInt 0)]"
      unfolding frames_def by auto
    then have "length (map more_chunks frames) = Suc k" by simp
    then have "k = length frames - 1" by simp
    with k False show ?thesis by simp
  qed
  from run size flags show ?thesis unfolding payload_def by blast
qed

theorem write_chunked_more_chunks_witness:
  "write_chunked id [(''a'', VStr ''T''), (''f'', VInt 100)] ''abcd'' =
     Inr ([([(''a'', VStr ''T''), (''f'', VInt 100), (''m'', VInt 0)], ''YWJjZA=='')], [])"
  using write_chunked_more_chunks
    [of "[(''a'', VStr ''T''), (''f'', VInt 100)]" "VInt 100" id "''abcd''"]
  by (simp add: write_chunked_def cmd_get_def cmd_set_def chunk_loop_step chunk_loop_empty
      sextets_def b64_char_def b64_alphabet_def)

text \<open>
  C4: for every command with a format key and every input buffer, of any length,
  decoding the concatenation of the payloads of the emitted frames, in emission order,
  and decompressing the result when \<^verbatim>\<open>write_chunked\<close> compressed (the format is not 100),
  gives back the input buffer, for every compressor whose output the decompressor
  turns back into this buffer. The first frame carries \<open>o=z\<close> whenever the data was
  compressed, and otherwise the \<open>o\<close> key the caller passed in, if any.
\<close>

theorem write_chunked_round_trip:
  assumes "cmd_get cmd ''f'' = Inr f" and "decompress (compress data) = Some data"
  shows "\<exists>frames cmd'.
           write_chunked compress cmd data = Inr (frames, cmd') \<and>
           decode_frames decompress (f \<noteq> VInt 100) frames = Some data \<and>
           (frames \<noteq> [] \<longrightarrow>
              (if f \<noteq> VInt 100 then map_of (fst (hd frames)) ''o'' = Some (VStr ''z'')
               else map_of (fst (hd frames)) ''o'' = map_of cmd ''o''))"
proof -
  define payload where "payload = (if f \<noteq> VInt 100 then compress data else data)"
  define cmd1 where "cmd1 = (if f \<noteq> VInt 100 then cmd_set ''o'' (VStr ''z'') cmd else cmd)"
  define frames where "frames = fst (chunk_loop cmd1 (standard_b64encode payload) [])"
  define cmd' where "cmd' = snd (chunk_loop cmd1 (standard_b64encode payload) [])"
  have run: "write_chunked compress cmd data = Inr (frames, cmd')"
    using assms(1) by (simp add: write_chunked_def payload_def cmd1_def frames_def cmd'_def)
  have "concat (map snd frames) = standard_b64encode payload"
    unfolding frames_def by (simp add: chunk_loop_concat)
  then have "b64decode (concat (map snd frames)) = Some payload"
    by (simp add: b64_roundtrip)
  then have dec: "decode_frames decompress (f \<noteq> VInt 100) frames = Some data"
    using assms(2) by (simp add: decode_frames_def payload_def)
  have flag: "frames \<noteq> [] \<longrightarrow>
              (if f \<noteq> VInt 100 then map_of (fst (hd frames)) ''o'' = Some (VStr ''z'')
               else map_of (fst (hd frames)) ''o'' = map_of cmd ''o'')"
  proof
    assume ne: "frames \<noteq> []"
    have "standard_b64encode payload \<noteq> []"
    proof
      assume "standard_b64encode payload = []"
      then have "frames = []" by (simp add: frames_def chunk_loop_empty)
      with ne show False by simp
    qed
    from chunk_loop_first [OF this, of cmd1] obtain m rest where
      "frames = (cmd_set ''m'' (VInt m) cmd1, take 4096 (standard_b64encode payload)) # rest"
      unfolding frames_def by blast
    then have "map_of (fst (hd frames)) ''o'' = map_of cmd1 ''o''"
      by (simp add: cmd_set_def update_conv')
    then show "if f \<noteq> VInt 100 then map_of (fst (hd frames)) ''o'' = Some (VStr ''z'')
               else map_of (fst (hd frames)) ''o'' = map_of cmd ''o''"
      by (simp add: cmd1_def cmd_set_def update_conv')
  qed
  from run dec flag show ?thesis by blast
qed

theorem write_chunked_round_trip_witness:
  "write_chunked ((#) CHR ''x'') [(''a'', VStr ''T''), (''f'', VInt 24)] ''ab'' =
     Inr ([([(''a'', VStr ''T''), (''f'', VInt 24), (''o'', VStr ''z''), (''m'', VInt 0)],
            ''eGFi'')], []) \<and>
   decode_frames (\<lambda>raw. case raw of [] \<Rightarrow> None | c # r \<Rightarrow> Some r) True
     [([(''a'', VStr ''T''), (''f'', VInt 24), (''o'', VStr ''z''), (''m'', VInt 0)],
       ''eGFi'')] = Some ''ab''"
  using write_chunked_round_trip
    [of "[(''a'', VStr ''T''), (''f'', VInt 24)]" "VInt 24"
        "\<lambda>raw. case raw of [] \<Rightarrow> None | c # r \<Rightarrow> Some r" "(#) CHR ''x''" "''ab''"]
  by (simp add: write_chunked_def cmd_get_def cmd_set_def chunk_loop_step chunk_loop_empty
      sextets_def b64_char_def b64_alphabet_def)

subsection \<open>Directories among the items\<close>

lemma process_call_two_args:
  "process_call body [ArgStr p, ArgArgs a] st =
     (Inl TypeError, st\<lparr>calls := calls st @ [[ArgStr p, ArgArgs a]]\<rparr>)"
  by (simp add: process_call_def)

lemma process_call_three_args:
  "process_call body [ArgStr p, ArgArgs a, ArgBool t] st =
     (body p a t, st\<lparr>calls := calls st @ [[ArgStr p, ArgArgs a, ArgBool t]],
                    transferred := transferred st @ [p]\<rparr>)"
  by (simp add: process_call_def)

text \<open>
  C10: for every item that is a directory, the loop over the files found by \<^verbatim>\<open>scan\<close>
  calls \<^verbatim>\<open>process\<close> with the directory path itself and with two arguments only. When
  \<^verbatim>\<open>scan\<close> finds nothing, nothing is called; otherwise the first call raises
  \<^verbatim>\<open>TypeError\<close>, which no handler of the loop catches, so main stops there. In both cases
  the body of \<^verbatim>\<open>process\<close> is entered for no path: the files found in the directory are
  never transferred.
\<close>

theorem directory_files_never_transferred:
  assumes "isdir fs d"
  shows "process_item body fs a (Path d) st =
           (if scan fs d = [] then (Inr (), st)
            else (Inl TypeError, st\<lparr>calls := calls st @ [[ArgStr d, ArgArgs a]]\<rparr>)) \<and>
         transferred (snd (process_item body fs a (Path d) st)) = transferred st \<and>
         item_loop body fs a (Path d # items) st =
           (if scan fs d = [] then item_loop body fs a items st
            else (Inl TypeError, st\<lparr>calls := calls st @ [[ArgStr d, ArgArgs a]]\<rparr>))"
proof -
  have item: "process_item body fs a (Path d) st =
           (if scan fs d = [] then (Inr (), st)
            else (Inl TypeError, st\<lparr>calls := calls st @ [[ArgStr d, ArgArgs a]]\<rparr>))"
    using assms
    by (cases "scan fs d") (simp_all add: process_item_def process_call_two_args)
  then show ?thesis by simp
qed

theorem directory_files_never_transferred_witness:
  "process_item (\<lambda>path a is_tempfile. Inr ())
     \<lparr>isdir = (\<lambda>p. p = ''pics''), scan = (\<lambda>d. [(''pics/a.png'', ''image/png'')]),
      tempfile_name = (\<lambda>d. ''stdin-image-data-0'')\<rparr>
     \<lparr>args_place = None, args_scale_up = False, args_align = ''center''\<rparr>
     (Path ''pics'') \<lparr>calls = [], transferred = [], errors = []\<rparr> =
   (Inl TypeError,
    \<lparr>calls = [[ArgStr ''pics'',
                ArgArgs \<lparr>args_place = None, args_scale_up = False, args_align = ''center''\<rparr>]],
     transferred = [], errors = []\<rparr>)"
  using directory_files_never_transferred
    [of "\<lparr>isdir = (\<lambda>p. p = ''pics''), scan = (\<lambda>d. [(''pics/a.png'', ''image/png'')]),
          tempfile_name = (\<lambda>d. ''stdin-image-data-0'')\<rparr>" "''pics''"
        "\<lambda>path a is_tempfile. Inr ()"
        "\<lparr>args_place = None, args_scale_up = False, args_align = ''center''\<rparr>"
        "\<lparr>calls = [], transferred = [], errors = []\<rparr>" "[]"]
  by simp

subsection \<open>Parsing the place specification\<close>

lemma split_on_free: "sep \<notin> set w \<Longrightarrow> split_on sep w = [w]"
  by (induction w) (auto simp: Let_def)

lemma split_on_cut: "sep \<notin> set w \<Longrightarrow> split_on sep (w @ sep # rest) = w # split_on sep rest"
  by (induction w) (auto simp: Let_def)

lemma split_on_nonempty: "split_on sep s \<noteq> []"
  by (induction s) (simp_all add: Let_def)

lemma split_on_head:
  "split_on sep s = p # ps \<Longrightarrow>
   sep \<notin> set p \<and> (if ps = [] then s = p
                    else \<exists>rest. s = p @ sep # rest \<and> split_on sep rest = ps)"
proof (induction s arbitrary: p ps)
  case Nil
  then show ?case by simp
next
  case (Cons c cs)
  show ?case
  proof (cases "c = sep")
    case True
    with Cons.prems have "p = []" and "ps = split_on sep cs" by simp_all
    with True show ?thesis by (simp add: split_on_nonempty)
  next
    case False
    obtain q qs where q: "split_on sep cs = q # qs"
      using split_on_nonempty [of sep cs] by (cases "split_on sep cs") auto
    with False Cons.prems have p: "p = c # q" and ps: "ps = qs" by (simp_all add: Let_def)
    from Cons.IH [OF q] False show ?thesis unfolding p ps by auto
  qed
qed

lemma split_on_two:
  "split_on sep s = [p, q] \<longleftrightarrow> s = p @ sep # q \<and> sep \<notin> set p \<and> sep \<notin> set q"
proof
  assume a: "split_on sep s = [p, q]"
  from split_on_head [OF a] obtain rest where
    s: "s = p @ sep # rest" and p: "sep \<notin> set p" and r: "split_on sep rest = [q]"
    by auto
  from split_on_head [OF r] have "sep \<notin> set q" and "rest = q" by simp_all
  with s p show "s = p @ sep # q \<and> sep \<notin> set p \<and> sep \<notin> set q" by simp
next
  assume "s = p @ sep # q \<and> sep \<notin> set p \<and> sep \<notin> set q"
  then show "split_on sep s = [p, q]" by (simp add: split_on_cut split_on_free)
qed

lemma takeWhile_sep:
  "sep \<notin> set a \<Longrightarrow> takeWhile (\<lambda>c. c \<noteq> sep) (a @ sep # b) = a"
  by (induction a) auto

lemma dropWhile_sep:
  "sep \<notin> set a \<Longrightarrow> dropWhile (\<lambda>c. c \<noteq> sep) (a @ sep # b) = sep # b"
  by (induction a) auto

lemma split_first_two:
  "split_first sep s = [a, b] \<longleftrightarrow> s = a @ sep # b \<and> sep \<notin> set a"
proof
  assume h: "split_first sep s = [a, b]"
  then have mem: "sep \<in> set s" by (auto simp: split_first_def split: if_splits)
  with h have a: "a = takeWhile (\<lambda>c. c \<noteq> sep) s"
    and b: "b = tl (dropWhile (\<lambda>c. c \<noteq> sep) s)"
    by (simp_all add: split_first_def)
  from mem have ne: "dropWhile (\<lambda>c. c \<noteq> sep) s \<noteq> []" by auto
  then have "hd (dropWhile (\<lambda>c. c \<noteq> sep) s) = sep"
    using hd_dropWhile [of "\<lambda>c. c \<noteq> sep" s] by simp
  with ne have "dropWhile (\<lambda>c. c \<noteq> sep) s = sep # b"
    unfolding b by (cases "dropWhile (\<lambda>c. c \<noteq> sep) s") simp_all
  then have "s = a @ sep # b"
    unfolding a using takeWhile_dropWhile_id [of "\<lambda>c. c \<noteq> sep" s] by simp
  moreover have "sep \<notin> set a" unfolding a by (auto dest: set_takeWhileD)
  ultimately show "s = a @ sep # b \<and> sep \<notin> set a" by simp
next
  assume "s = a @ sep # b \<and> sep \<notin> set a"
  then show "split_first sep s = [a, b]"
    by (simp add: split_first_def takeWhile_sep dropWhile_sep)
qed

lemma split_first_length:
  "split_first sep s = [s] \<or> (\<exists>a b. split_first sep s = [a, b])"
  by (simp add: split_first_def)

lemma unpack_ints_error: "unpack_ints to_int parts = Inl e \<Longrightarrow> e = ValueError"
  by (auto simp: unpack_ints_def split: list.splits option.splits)

lemma unpack_ints_two:
  "unpack_ints to_int (split_on sep s) = Inr (a, b) \<longleftrightarrow>
     (\<exists>p q. s = p @ sep # q \<and> sep \<notin> set p \<and> sep \<notin> set q \<and>
            to_int p = Some a \<and> to_int q = Some b)"
proof
  assume h: "unpack_ints to_int (split_on sep s) = Inr (a, b)"
  then obtain p q where pq: "split_on sep s = [p, q]"
    by (auto simp: unpack_ints_def split: list.splits)
  with h have "to_int p = Some a" and "to_int q = Some b"
    by (auto simp: unpack_ints_def split: option.splits)
  with pq show "\<exists>p q. s = p @ sep # q \<and> sep \<notin> set p \<and> sep \<notin> set q \<and>
            to_int p = Some a \<and> to_int q = Some b"
    by (auto simp: split_on_two)
next
  assume "\<exists>p q. s = p @ sep # q \<and> sep \<notin> set p \<and> sep \<notin> set q \<and>
            to_int p = Some a \<and> to_int q = Some b"
  then obtain p q where "split_on sep s = [p, q]" and "to_int p = Some a" and "to_int q = Some b"
    by (auto simp: split_on_two)
  then show "unpack_ints to_int (split_on sep s) = Inr (a, b)"
    by (simp add: unpack_ints_def)
qed

lemma parse_place_error: "parse_place to_int raw = Inl e \<Longrightarrow> e = ValueError"
  using split_first_length [of "CHR ''@''" "the raw"]
  by (auto simp: parse_place_def split: option.splits if_splits list.splits sum.splits
      dest: unpack_ints_error)

lemma parse_place_none:
  "parse_place to_int raw = Inr None \<longleftrightarrow> raw = None \<or> raw = Some []"
  by (auto simp: parse_place_def split: option.splits if_splits list.splits sum.splits)

lemma parse_place_some:
  "parse_place to_int raw = Inr (Some p) \<longleftrightarrow>
     (\<exists>w h l t. raw = Some (w @ ''x'' @ h @ ''@'' @ l @ ''x'' @ t) \<and>
        CHR ''x'' \<notin> set w \<union> set h \<union> set l \<union> set t \<and> CHR ''@'' \<notin> set w \<union> set h \<and>
        to_int w = Some (width p) \<and> to_int h = Some (height p) \<and>
        to_int l = Some (left p) \<and> to_int t = Some (top p))"
proof
  assume h: "parse_place to_int raw = Inr (Some p)"
  then obtain r where r: "raw = Some r" and "r \<noteq> []"
    by (auto simp: parse_place_def split: option.splits if_splits)
  with h obtain area pos where ap: "split_first CHR ''@'' r = [area, pos]"
    by (auto simp: parse_place_def split: list.splits)
  with h r \<open>r \<noteq> []\<close> obtain W H L T where
    wh: "unpack_ints to_int (split_on CHR ''x'' area) = Inr (W, H)" and
    lt: "unpack_ints to_int (split_on CHR ''x'' pos) = Inr (L, T)" and
    p: "p = \<lparr>width = W, height = H, left = L, top = T\<rparr>"
    by (auto simp: parse_place_def split: sum.splits)
  from ap have r': "r = area @ CHR ''@'' # pos" and at: "CHR ''@'' \<notin> set area"
    by (simp_all add: split_first_two)
  from wh obtain w h where "area = w @ CHR ''x'' # h" "CHR ''x'' \<notin> set w" "CHR ''x'' \<notin> set h"
    "to_int w = Some W" "to_int h = Some H"
    unfolding unpack_ints_two by blast
  moreover from lt obtain l t where "pos = l @ CHR ''x'' # t" "CHR ''x'' \<notin> set l" "CHR ''x'' \<notin> set t"
    "to_int l = Some L" "to_int t = Some T"
    unfolding unpack_ints_two by blast
  ultimately show "\<exists>w h l t. raw = Some (w @ ''x'' @ h @ ''@'' @ l @ ''x'' @ t) \<and>
        CHR ''x'' \<notin> set w \<union> set h \<union> set l \<union> set t \<and> CHR ''@'' \<notin> set w \<union> set h \<and>
        to_int w = Some (width p) \<and> to_int h = Some (height p) \<and>
        to_int l = Some (left p) \<and> to_int t = Some (top p)"
    using r r' at p by (intro exI [of _ w] exI [of _ h] exI [of _ l] exI [of _ t]) auto
next
  assume "\<exists>w h l t. raw = Some (w @ ''x'' @ h @ ''@'' @ l @ ''x'' @ t) \<and>
        CHR ''x'' \<notin> set w \<union> set h \<union> set l \<union> set t \<and> CHR ''@'' \<notin> set w \<union> set h \<and>
        to_int w = Some (width p) \<and> to_int h = Some (height p) \<and>
        to_int l = Some (left p) \<and> to_int t = Some (top p)"
  then obtain w h l t where raw: "raw = Some ((w @ CHR ''x'' # h) @ CHR ''@'' # (l @ CHR ''x'' # t))"
    and x: "CHR ''x'' \<notin> set w" "CHR ''x'' \<notin> set h" "CHR ''x'' \<notin> set l" "CHR ''x'' \<notin> set t"
    and at: "CHR ''@'' \<notin> set (w @ CHR ''x'' # h)"
    and v: "to_int w = Some (width p)" "to_int h = Some (height p)"
      "to_int l = Some (left p)" "to_int t = Some (top p)"
    by auto
  have sf: "split_first CHR ''@'' ((w @ CHR ''x'' # h) @ CHR ''@'' # (l @ CHR ''x'' # t)) =
      [w @ CHR ''x'' # h, l @ CHR ''x'' # t]"
    unfolding split_first_two using at by simp
  have wh: "unpack_ints to_int (split_on CHR ''x'' (w @ CHR ''x'' # h)) = Inr (width p, height p)"
    unfolding unpack_ints_two using x v by blast
  have lt: "unpack_ints to_int (split_on CHR ''x'' (l @ CHR ''x'' # t)) = Inr (left p, top p)"
    unfolding unpack_ints_two using x v by blast
  show "parse_place to_int raw = Inr (Some p)"
    unfolding raw parse_place_def by (simp add: sf wh lt del: append_assoc append.simps)
qed

lemma py_int_examples:
  "py_int ''-3'' = Some (- 3)" "py_int '' 12_0 '' = Some 120" "py_int ''1__0'' = None"
  "py_int ''+7'' = Some 7" "py_int [] = None" "py_int ''4x'' = None" "py_int ''_1'' = None"
  "py_int ''1_'' = None" "py_int ''- 1'' = None" "py_int ''007'' = Some 7"
  "py_int ''2'' = Some 2" "py_int ''3'' = Some 3" "py_int ''4'' = Some 4" "py_int ''8'' = Some 8"
  by (simp_all add: py_int_def py_isspace_def py_isdigit_def digit_value_def)

text \<open>
  C9 (as the specification states it): every Place produced has four non-negative
  fields. The specification \<^verbatim>\<open>-3x4@2x3\<close> splits into four pieces that \<^verbatim>\<open>int\<close> accepts, and
  the Place produced has width \<open>-3\<close>.
\<close>

theorem parse_place_negative_counterexample:
  "parse_place py_int (Some ''-3x4@2x3'') =
     Inr (Some \<lparr>width = - 3, height = 4, left = 2, top = 3\<rparr>) \<and>
   width \<lparr>width = - 3, height = 4, left = 2, top = 3\<rparr> < 0"
  by (simp add: parse_place_def split_first_def unpack_ints_def py_int_examples)

text \<open>
  C9 (amended): \<^verbatim>\<open>parse_place\<close> produces a Place exactly for a specification of the form
  \<open>W x H @ L x T\<close>, cut at the first \<open>@\<close> and at the \<open>x\<close> on either side, whose four pieces
  \<^verbatim>\<open>int\<close> accepts, and the fields are the integers \<^verbatim>\<open>int\<close> gives for them, negative ones
  included. An absent or empty specification produces no Place and no error. Every
  other specification raises \<^verbatim>\<open>ValueError\<close>, which \<^verbatim>\<open>main\<close> turns into \<^verbatim>\<open>SystemExit\<close>
  before it does anything else, so before any transfer begins.
\<close>

theorem parse_place_validated:
  "(parse_place to_int raw = Inr None \<longleftrightarrow> raw = None \<or> raw = Some []) \<and>
   (parse_place to_int raw = Inr (Some p) \<longleftrightarrow>
      (\<exists>w h l t. raw = Some (w @ ''x'' @ h @ ''@'' @ l @ ''x'' @ t) \<and>
         CHR ''x'' \<notin> set w \<union> set h \<union> set l \<union> set t \<and> CHR ''@'' \<notin> set w \<union> set h \<and>
         to_int w = Some (width p) \<and> to_int h = Some (height p) \<and>
         to_int l = Some (left p) \<and> to_int t = Some (top p))) \<and>
   ((\<exists>e. parse_place to_int raw = Inl e) \<longrightarrow>
      parse_place to_int raw = Inl ValueError \<and> main_place to_int raw rest = Inl SystemExit)"
proof (intro conjI)
  show "parse_place to_int raw = Inr None \<longleftrightarrow> raw = None \<or> raw = Some []"
    by (rule parse_place_none)
next
  show "parse_place to_int raw = Inr (Some p) \<longleftrightarrow>
      (\<exists>w h l t. raw = Some (w @ ''x'' @ h @ ''@'' @ l @ ''x'' @ t) \<and>
         CHR ''x'' \<notin> set w \<union> set h \<union> set l \<union> set t \<and> CHR ''@'' \<notin> set w \<union> set h \<and>
         to_int w = Some (width p) \<and> to_int h = Some (height p) \<and>
         to_int l = Some (left p) \<and> to_int t = Some (top p))"
    by (rule parse_place_some)
next
  show "(\<exists>e. parse_place to_int raw = Inl e) \<longrightarrow>
      parse_place to_int raw = Inl ValueError \<and> main_place to_int raw rest = Inl SystemExit"
  proof
    assume "\<exists>e. parse_place to_int raw = Inl e"
    then obtain e where e: "parse_place to_int raw = Inl e" ..
    from parse_place_error [OF e] e have "parse_place to_int raw = Inl ValueError" by simp
    then show "parse_place to_int raw = Inl ValueError \<and>
        main_place to_int raw rest = Inl SystemExit"
      by (simp add: main_place_def)
  qed
qed

theorem parse_place_validated_witness:
  "parse_place py_int (Some ''8x4@2x3'') =
     Inr (Some \<lparr>width = 8, height = 4, left = 2, top = 3\<rparr>) \<and>
   parse_place py_int (Some ''8x4'') = Inl ValueError \<and>
   main_place py_int (Some ''8x4'') (\<lambda>place. Inr place) = Inl SystemExit"
proof -
  let ?p = "\<lparr>width = 8, height = 4, left = 2, top = 3\<rparr>"
  have form: "\<exists>w h l t. Some ''8x4@2x3'' = Some (w @ ''x'' @ h @ ''@'' @ l @ ''x'' @ t) \<and>
         CHR ''x'' \<notin> set w \<union> set h \<union> set l \<union> set t \<and> CHR ''@'' \<notin> set w \<union> set h \<and>
         py_int w = Some (width ?p) \<and> py_int h = Some (height ?p) \<and>
         py_int l = Some (left ?p) \<and> py_int t = Some (top ?p)"
    by (rule exI [of _ "''8''"], rule exI [of _ "''4''"], rule exI [of _ "''2''"],
        rule exI [of _ "''3''"]) (simp add: py_int_examples)
  from parse_place_validated [of py_int "Some ''8x4@2x3''" ?p "\<lambda>place. Inr place"] form
  have a: "parse_place py_int (Some ''8x4@2x3'') = Inr (Some ?p)"
    by blast
  have "\<exists>e. parse_place py_int (Some ''8x4'') = Inl e"
    by (simp add: parse_place_def split_first_def)
  with parse_place_validated [of py_int "Some ''8x4''" ?p "\<lambda>place. Inr place"]
  have b: "parse_place py_int (Some ''8x4'') = Inl ValueError \<and>
      main_place py_int (Some ''8x4'') (\<lambda>place. Inr place) = Inl SystemExit"
    by blast
  from a b show ?thesis by simp
qed

end
